theory Spec2Isabelle
  imports Main "HOL-Library.Sublist" "HOL-Library.Multiset"
begin

section \<open>Python strings\<close>

text \<open>
  A Python \<open>str\<close> is modelled as a \<open>string\<close> whose characters are the code points
  below 256, one \<open>char\<close> per code point, so that \<open>length\<close> is Python's \<open>len\<close>.
  \<open>py_isspace\<close> is \<open>str.isspace\<close> on one character (the set that \<open>str.strip()\<close>
  removes and that \<open>\s\<close> matches in a \<open>str\<close> pattern); \<open>py_lower\<close> is \<open>str.lower\<close>.
\<close>

definition py_isspace :: "char \<Rightarrow> bool" where
  "py_isspace c \<longleftrightarrow>
     c \<in> {CHR 0x09, CHR 0x0A, CHR 0x0B, CHR 0x0C, CHR 0x0D, CHR 0x1C, CHR 0x1D, CHR 0x1E,
          CHR 0x1F, CHR 0x20, CHR 0x85, CHR 0xA0}"

definition py_strip :: "string \<Rightarrow> string" where
  "py_strip s = rev (dropWhile py_isspace (rev (dropWhile py_isspace s)))"

definition upper_chars :: string where
  "upper_chars = ''ABCDEFGHIJKLMNOPQRSTUVWXYZ'' @
     [CHR 0xC0, CHR 0xC1, CHR 0xC2, CHR 0xC3, CHR 0xC4, CHR 0xC5, CHR 0xC6, CHR 0xC7,
      CHR 0xC8, CHR 0xC9, CHR 0xCA, CHR 0xCB, CHR 0xCC, CHR 0xCD, CHR 0xCE, CHR 0xCF,
      CHR 0xD0, CHR 0xD1, CHR 0xD2, CHR 0xD3, CHR 0xD4, CHR 0xD5, CHR 0xD6,
      CHR 0xD8, CHR 0xD9, CHR 0xDA, CHR 0xDB, CHR 0xDC, CHR 0xDD, CHR 0xDE]"

definition lower_chars :: string where
  "lower_chars = ''abcdefghijklmnopqrstuvwxyz'' @
     [CHR 0xE0, CHR 0xE1, CHR 0xE2, CHR 0xE3, CHR 0xE4, CHR 0xE5, CHR 0xE6, CHR 0xE7,
      CHR 0xE8, CHR 0xE9, CHR 0xEA, CHR 0xEB, CHR 0xEC, CHR 0xED, CHR 0xEE, CHR 0xEF,
      CHR 0xF0, CHR 0xF1, CHR 0xF2, CHR 0xF3, CHR 0xF4, CHR 0xF5, CHR 0xF6,
      CHR 0xF8, CHR 0xF9, CHR 0xFA, CHR 0xFB, CHR 0xFC, CHR 0xFD, CHR 0xFE]"

definition lower_char :: "char \<Rightarrow> char" where
  "lower_char c = (case map_of (zip upper_chars lower_chars) c of None \<Rightarrow> c | Some l \<Rightarrow> l)"

definition py_lower :: "string \<Rightarrow> string" where
  "py_lower s = map lower_char s"

text \<open>\<open>needle in haystack\<close> on strings: the needle occurs as a contiguous substring.\<close>

fun starts_with :: "string \<Rightarrow> string \<Rightarrow> bool" where
  "starts_with [] s = True"
| "starts_with (p # ps) [] = False"
| "starts_with (p # ps) (c # cs) = (p = c \<and> starts_with ps cs)"

fun py_in :: "string \<Rightarrow> string \<Rightarrow> bool" where
  "py_in needle [] = (needle = [])"
| "py_in needle (c # cs) = (starts_with needle (c # cs) \<or> py_in needle cs)"

text \<open>\<open>s.split(sep)\<close> with a one-character separator: every occurrence splits.\<close>

fun py_split :: "char \<Rightarrow> string \<Rightarrow> string list" where
  "py_split sep [] = [[]]"
| "py_split sep (c # cs) =
     (if c = sep then [] # py_split sep cs
      else (case py_split sep cs of [] \<Rightarrow> [[c]] | t # ts \<Rightarrow> (c # t) # ts))"

text \<open>\<open>sep.join(parts)\<close>.\<close>

fun py_join :: "string \<Rightarrow> string list \<Rightarrow> string" where
  "py_join sep [] = []"
| "py_join sep [p] = p"
| "py_join sep (p # q # ps) = p @ sep @ py_join sep (q # ps)"

text \<open>Decimal rendering of an integer, as \<open>str(n)\<close>, \<open>%d\<close> and an f-string field give it.\<close>

definition digit_char :: "nat \<Rightarrow> char" where
  "digit_char d = ''0123456789'' ! (d mod 10)"

function str_nat :: "nat \<Rightarrow> string" where
  "str_nat n = (if n < 10 then [digit_char n] else str_nat (n div 10) @ [digit_char n])"
  by pat_completeness auto
termination
  by (relation "measure id") auto

declare str_nat.simps [simp del]

definition str_int :: "int \<Rightarrow> string" where
  "str_int i = (if i < 0 then CHR ''-'' # str_nat (nat (- i)) else str_nat (nat i))"

section \<open>Logging\<close>

text \<open>The records a \<open>logging.Logger\<close> receives: level and formatted message.\<close>

datatype log_record = INFO string | WARNING string | ERROR string

section \<open>The engine-side recipient filter (app/services/mailer.py)\<close>

text \<open>
  \<^verbatim>\<open>
  def validate_recipients(addresses):
      valid = []
      for address in addresses:
          trimmed = address.strip()
          if "@" in trimmed: valid.append(trimmed)
          else: logger.warning("Skipped invalid address: %s", address)
      return valid
  \<close>
  The loop carries the list \<open>valid\<close> and the log.
\<close>

fun validate_recipients_loop ::
  "string list \<Rightarrow> string list \<times> log_record list \<Rightarrow> string list \<times> log_record list" where
  "validate_recipients_loop [] (valid, lg) = (valid, lg)"
| "validate_recipients_loop (address # addresses) (valid, lg) =
     (let trimmed = py_strip address in
      if py_in ''@'' trimmed
      then validate_recipients_loop addresses (valid @ [trimmed], lg)
      else validate_recipients_loop addresses
             (valid, lg @ [WARNING (''Skipped invalid address: '' @ address)]))"

definition validate_recipients :: "string list \<Rightarrow> string list \<times> log_record list" where
  "validate_recipients addresses = validate_recipients_loop addresses ([], [])"

section \<open>Address validation and forms (webapp/forms.py)\<close>

subsection \<open>\<open>EMAIL_RE\<close>\<close>

text \<open>
  \<^verbatim>\<open>
  EMAIL_RE = re.compile(
      r"^[a-zA-Z0-9.!#$%&'*+/=?^_`{|}~-]+@"
      r"[a-zA-Z0-9](?:[a-zA-Z0-9-]{0,61}[a-zA-Z0-9])?"
      r"(?:\.[a-zA-Z0-9](?:[a-zA-Z0-9-]{0,61}[a-zA-Z0-9])?)*$")
  \<close>
  The local part is a non-empty run of characters of the first class; since \<open>@\<close> is not
  in the class, the run ends exactly at the first character outside it, which must be
  \<open>@\<close>. What follows is a label and any number of \<open>.label\<close>: the pieces between the
  dots are all labels. A label is one to 63 characters of \<open>[a-zA-Z0-9-]\<close> that begins and
  ends with \<open>[a-zA-Z0-9]\<close>. Without \<open>re.MULTILINE\<close>, \<open>$\<close> matches at the end of the
  string and also just before a newline that ends the string.
\<close>

definition alnum :: "char \<Rightarrow> bool" where
  "alnum c \<longleftrightarrow> c \<in> set ''abcdefghijklmnopqrstuvwxyzABCDEFGHIJKLMNOPQRSTUVWXYZ0123456789''"

definition local_char :: "char \<Rightarrow> bool" where
  "local_char c \<longleftrightarrow> alnum c \<or> c \<in> set ''.!#$%&*+/=?^_`{|}~-'' \<or> c = CHR 0x27"

definition label_char :: "char \<Rightarrow> bool" where
  "label_char c \<longleftrightarrow> alnum c \<or> c = CHR ''-''"

definition dns_label :: "string \<Rightarrow> bool" where
  "dns_label l \<longleftrightarrow>
     l \<noteq> [] \<and> length l \<le> 63 \<and> alnum (hd l) \<and> alnum (last l) \<and> list_all label_char l"

definition EMAIL_RE_to_end :: "string \<Rightarrow> bool" where
  "EMAIL_RE_to_end s \<longleftrightarrow>
     takeWhile local_char s \<noteq> [] \<and>
     (case dropWhile local_char s of
        [] \<Rightarrow> False
      | c # domain \<Rightarrow> c = CHR ''@'' \<and> list_all dns_label (py_split CHR ''.'' domain))"

definition EMAIL_RE_match :: "string \<Rightarrow> bool" where
  "EMAIL_RE_match s \<longleftrightarrow>
     EMAIL_RE_to_end s \<or> (s \<noteq> [] \<and> last s = CHR 0x0A \<and> EMAIL_RE_to_end (butlast s))"

definition DISPOSABLE_DOMAINS :: "string set" where
  "DISPOSABLE_DOMAINS =
     {''tempmail.com'', ''throwaway.email'', ''guerrillamail.com'', ''10minutemail.com'',
      ''mailinator.com''}"

subsection \<open>\<open>BaseForm\<close>\<close>

text \<open>
  \<open>sanitize_input(value, max_length)\<close>: strip, then keep the first \<open>max_length\<close>
  characters when \<open>max_length\<close> is given and not zero. A form field that is absent is
  \<open>None\<close> in the form data, a map from field names to strings.
\<close>

definition sanitize_input :: "string \<Rightarrow> nat option \<Rightarrow> string" where
  "sanitize_input v max_length =
     (let sanitized = py_strip v in
      case max_length of
        None \<Rightarrow> sanitized
      | Some m \<Rightarrow> if m \<noteq> 0 \<and> length sanitized > m then take m sanitized else sanitized)"

text \<open>
  The \<open>errors\<close> and \<open>warnings\<close> dictionaries keep their insertion order;
  \<open>d[k] = v\<close> replaces the value of a key that is present.
\<close>

fun dict_set :: "(string \<times> string) list \<Rightarrow> string \<Rightarrow> string \<Rightarrow> (string \<times> string) list" where
  "dict_set [] k v = [(k, v)]"
| "dict_set ((k', v') # d) k v = (if k' = k then (k, v) # d else (k', v') # dict_set d k v)"

record BaseForm =
  errors :: "(string \<times> string) list"
  warnings :: "(string \<times> string) list"

definition get_field :: "(string \<rightharpoonup> string) \<Rightarrow> string \<Rightarrow> string \<Rightarrow> string" where
  "get_field formdata k dflt = (case formdata k of None \<Rightarrow> dflt | Some v \<Rightarrow> v)"

definition get_flag :: "(string \<rightharpoonup> string) \<Rightarrow> string \<Rightarrow> bool \<Rightarrow> bool" where
  "get_flag formdata k dflt = (case formdata k of None \<Rightarrow> dflt | Some v \<Rightarrow> v \<noteq> [])"

subsection \<open>\<open>RecipientForm\<close>\<close>

record RecipientForm = BaseForm +
  addresses :: string
  block_disposable :: bool
  deduplicate :: bool

definition MAX_EMAIL_LENGTH :: nat where
  "MAX_EMAIL_LENGTH = 254"

definition RecipientForm_init :: "(string \<rightharpoonup> string) \<Rightarrow> RecipientForm" where
  "RecipientForm_init formdata =
     \<lparr>errors = [], warnings = [],
      addresses = sanitize_input (get_field formdata ''addresses'' []) None,
      block_disposable = get_flag formdata ''block_disposable'' True,
      deduplicate = get_flag formdata ''deduplicate'' True\<rparr>"

text \<open>
  \<open>re.split(r"[,;\n\s]+", text)\<close>: the text is cut at every maximal run of separator
  characters; a run at the start or at the end leaves an empty first or last piece.
\<close>

definition is_sep :: "char \<Rightarrow> bool" where
  "is_sep c \<longleftrightarrow> c = CHR '','' \<or> c = CHR '';'' \<or> c = CHR 0x0A \<or> py_isspace c"

function re_split :: "string \<Rightarrow> string list" where
  "re_split s =
     (let piece = takeWhile (\<lambda>c. \<not> is_sep c) s; rest = dropWhile (\<lambda>c. \<not> is_sep c) s in
      if rest = [] then [piece] else piece # re_split (dropWhile is_sep rest))"
  by pat_completeness auto
termination
proof (relation "measure length")
  fix s piece rest
  assume r: "rest = dropWhile (\<lambda>c. \<not> is_sep c) s" and ne: "rest \<noteq> []"
  from ne obtain c cs where cs: "rest = c # cs" by (cases rest) auto
  with r have "is_sep c" by (metis hd_dropWhile list.sel(1) ne)
  then have "length (dropWhile is_sep rest) \<le> length cs"
    by (simp add: cs length_dropWhile_le)
  also have "\<dots> < length rest" by (simp add: cs)
  also have "\<dots> \<le> length s" by (simp add: r length_dropWhile_le)
  finally show "(dropWhile is_sep rest, s) \<in> measure length" by simp
qed simp

declare re_split.simps [simp del]

text \<open>
  \<open>flatten_addresses\<close>: the loop over the tokens carries \<open>addresses\<close> and \<open>seen\<close>.
\<close>

fun flatten_loop ::
  "bool \<Rightarrow> string list \<Rightarrow> string list \<times> string set \<Rightarrow> string list \<times> string set" where
  "flatten_loop dedup [] (addrs, seen) = (addrs, seen)"
| "flatten_loop dedup (token # tokens) (addrs, seen) =
     (let token = py_lower (py_strip token) in
      if token = [] then flatten_loop dedup tokens (addrs, seen)
      else if dedup then
        (if token \<in> seen then flatten_loop dedup tokens (addrs, seen)
         else flatten_loop dedup tokens (addrs @ [token], insert token seen))
      else flatten_loop dedup tokens (addrs @ [token], seen))"


text \<open>
  \<open>validate_email\<close>. \<open>email.split('@')[1]\<close> raises \<open>IndexError\<close> when the list has
  one element, and \<open>local, domain = email.split('@')\<close> raises \<open>ValueError\<close> unless it
  has exactly two: both are results of the model.
\<close>

datatype py_error = IndexError | ValueError

definition index1 :: "string list \<Rightarrow> py_error + string" where
  "index1 parts = (case parts of _ # d # _ \<Rightarrow> Inr d | _ \<Rightarrow> Inl IndexError)"

definition unpack2 :: "string list \<Rightarrow> py_error + string \<times> string" where
  "unpack2 parts = (case parts of [a, b] \<Rightarrow> Inr (a, b) | _ \<Rightarrow> Inl ValueError)"

definition validate_email_rest :: "string \<Rightarrow> py_error + bool \<times> string option" where
  "validate_email_rest email =
     (if py_in ''..'' email then Inr (False, Some ''Consecutive dots not allowed'')
      else case unpack2 (py_split CHR ''@'' email) of
        Inl e \<Rightarrow> Inl e
      | Inr (local, domain) \<Rightarrow>
          if local = [] \<or> domain = [] then Inr (False, Some ''Missing local or domain part'')
          else if \<not> py_in ''.'' domain then Inr (False, Some ''Domain must have a TLD'')
          else Inr (True, None))"

definition validate_email :: "RecipientForm \<Rightarrow> string \<Rightarrow> py_error + bool \<times> string option" where
  "validate_email self email =
     (if length email > MAX_EMAIL_LENGTH
      then Inr (False, Some (''Email too long (max '' @ str_nat MAX_EMAIL_LENGTH @ '' chars)''))
      else if \<not> EMAIL_RE_match email then Inr (False, Some ''Invalid email format'')
      else if block_disposable self then
        (case index1 (py_split CHR ''@'' email) of
           Inl e \<Rightarrow> Inl e
         | Inr d \<Rightarrow>
             (let domain = py_lower d in
              if domain \<in> DISPOSABLE_DOMAINS
              then Inr (False, Some (''Disposable email domain not allowed: '' @ domain))
              else validate_email_rest email))
      else validate_email_rest email)"

subsection \<open>Utility functions\<close>




subsection \<open>\<open>BroadcastForm\<close>\<close>






record BroadcastForm = BaseForm +
  subject :: string
  body :: string
  concurrency_raw :: string
  concurrency :: int
  send_test :: bool
  test_email :: string
  schedule_send :: bool

definition MIN_SUBJECT_LENGTH :: nat where "MIN_SUBJECT_LENGTH = 3"
definition MAX_SUBJECT_LENGTH :: nat where "MAX_SUBJECT_LENGTH = 200"
definition MIN_BODY_LENGTH :: nat where "MIN_BODY_LENGTH = 10"
definition MAX_BODY_LENGTH :: nat where "MAX_BODY_LENGTH = 50000"


definition add_error :: "string \<Rightarrow> string \<Rightarrow> BroadcastForm \<Rightarrow> BroadcastForm" where
  "add_error field message self = self\<lparr>errors := dict_set (errors self) field message\<rparr>"

definition add_warning :: "string \<Rightarrow> string \<Rightarrow> BroadcastForm \<Rightarrow> BroadcastForm" where
  "add_warning field message self = self\<lparr>warnings := dict_set (warnings self) field message\<rparr>"


text \<open>\<open>BroadcastForm.validate\<close>, one definition for each block of the method, in its order.\<close>

definition validate_subject :: "BroadcastForm \<Rightarrow> BroadcastForm" where
  "validate_subject self =
     (if subject self = [] then add_error ''subject'' ''Subject is required.'' self
      else if length (subject self) < MIN_SUBJECT_LENGTH
      then add_error ''subject''
             (''Subject must be at least '' @ str_nat MIN_SUBJECT_LENGTH @ '' characters.'') self
      else if length (subject self) > MAX_SUBJECT_LENGTH
      then add_error ''subject''
             (''Subject must be less than '' @ str_nat MAX_SUBJECT_LENGTH @ '' characters.'') self
      else self)"

definition spam_words :: "string list" where
  "spam_words = [''free'', ''urgent'', ''act now'', ''limited time'', ''winner'', ''congratulations'']"

definition check_spam :: "BroadcastForm \<Rightarrow> BroadcastForm" where
  "check_spam self =
     (if subject self \<noteq> [] then
        (let subject_lower = py_lower (subject self);
             found_spam = filter (\<lambda>word. py_in word subject_lower) spam_words
         in if found_spam \<noteq> []
            then add_warning ''subject''
                   (''Subject contains potential spam triggers: '' @ py_join '', '' found_spam) self
            else self)
      else self)"

definition validate_body :: "BroadcastForm \<Rightarrow> BroadcastForm" where
  "validate_body self =
     (if body self = [] then add_error ''body'' ''Message body is required.'' self
      else if length (body self) < MIN_BODY_LENGTH
      then add_error ''body''
             (''Message must be at least '' @ str_nat MIN_BODY_LENGTH @ '' characters.'') self
      else if length (body self) > MAX_BODY_LENGTH
      then add_error ''body''
             (''Message must be less than '' @ str_nat MAX_BODY_LENGTH @ '' characters.'') self
      else self)"

definition check_unsubscribe :: "BroadcastForm \<Rightarrow> BroadcastForm" where
  "check_unsubscribe self =
     (if body self \<noteq> [] \<and> \<not> py_in ''unsubscribe'' (py_lower (body self))
      then add_warning ''body''
             ''Consider adding an unsubscribe link to comply with email regulations'' self
      else self)"


definition validate_test_email :: "BroadcastForm \<Rightarrow> BroadcastForm" where
  "validate_test_email self =
     (if send_test self then
        (if test_email self = []
         then add_error ''test_email'' ''Test email address is required for test mode.'' self
         else if \<not> EMAIL_RE_match (test_email self)
         then add_error ''test_email'' ''Invalid test email address format.'' self
         else self)
      else self)"


section \<open>The dispatch engine (app/services/mailer.py)\<close>

subsection \<open>One attempt\<close>

text \<open>
  The transport is \<open>aiosmtplib.send\<close>: a call either completes or raises an exception
  \<open>e\<close>, of which the code reads only \<open>str(e)\<close>. What a call does is a parameter of the
  model, a function of the position of the recipient in the list and of the address.
  \<open>_build_message\<close> is taken to succeed.
  \<^verbatim>\<open>
  async def _send_one(self, recipient, message):
      email = self._build_message(message, recipient)
      try:
          await aiosmtplib.send(email, ..., timeout=30)
          logger.info("Delivered to %s", recipient)
      except Exception as e:
          error_msg = str(e)
          if "535" in error_msg or "BadCredentials" in error_msg or "not accepted" in error_msg:
              logger.error("SMTP Authentication failed. ...")
          raise
  \<close>
\<close>

datatype outcome = Sent | Failed string

type_synonym transport = "nat \<Rightarrow> string \<Rightarrow> outcome"

type_synonym worker = "nat \<times> string"

definition outcome_of :: "transport \<Rightarrow> worker \<Rightarrow> outcome" where
  "outcome_of transport w = transport (fst w) (snd w)"

definition auth_failure :: "string \<Rightarrow> bool" where
  "auth_failure error_msg \<longleftrightarrow>
     py_in ''535'' error_msg \<or> py_in ''BadCredentials'' error_msg \<or>
     py_in ''not accepted'' error_msg"

definition AUTH_GUIDANCE :: string where
  "AUTH_GUIDANCE =
     ''SMTP Authentication failed. Please check your SMTP credentials in .env file. '' @
     ''For Gmail, you need an App Password (not your regular password). '' @
     ''Get one at: https://myaccount.google.com/apppasswords''"

definition send_one :: "transport \<Rightarrow> worker \<Rightarrow> log_record list \<times> (string + unit)" where
  "send_one transport w =
     (case outcome_of transport w of
        Sent \<Rightarrow> ([INFO (''Delivered to '' @ snd w)], Inr ())
      | Failed error_msg \<Rightarrow>
          (if auth_failure error_msg then [ERROR AUTH_GUIDANCE] else [], Inl error_msg))"

subsection \<open>The concurrency limit\<close>

text \<open>
  \<open>limit = max(1, concurrency or DEFAULT_CONCURRENCY)\<close>. The argument
  \<open>concurrency\<close> (here \<open>conc\<close>) is \<open>int | None\<close>, and \<open>x or y\<close> is \<open>y\<close> when
  \<open>x\<close> is \<open>None\<close> or \<open>0\<close>.
  \<open>DEFAULT_CONCURRENCY\<close> is read from the environment (50 when the variable is not
  set): it is a parameter.
\<close>

definition effective_limit :: "int \<Rightarrow> int option \<Rightarrow> int" where
  "effective_limit DEFAULT_CONCURRENCY conc =
     max 1 (case conc of
              None \<Rightarrow> DEFAULT_CONCURRENCY
            | Some c \<Rightarrow> if c = 0 then DEFAULT_CONCURRENCY else c)"

subsection \<open>The semaphore, the workers and \<open>asyncio.gather\<close>\<close>

text \<open>
  \<^verbatim>\<open>
  semaphore = asyncio.Semaphore(limit)
  async def worker(address):
      async with semaphore:
          await self._send_one(address, message)
          if progress_hook: progress_hook(address)
  await asyncio.gather(*(worker(address) for address in recipients))
  logger.info("Broadcast completed.")
  \<close>
  The state of a run: the value of the semaphore, the workers blocked in \<open>acquire\<close>
  (first in, first out), the workers inside \<open>async with\<close> whose transport call is
  pending, the transport calls started so far, the log, and the calls of the progress
  hook. A worker is the position of its recipient and the address.
\<close>

record engine =
  sem_value :: nat
  waiters :: "worker list"
  in_flight :: "worker list"
  calls :: "worker list"
  logged :: "log_record list"
  progress :: "string list"

text \<open>
  A task runs until it first waits. \<open>acquire\<close> returns at once when the semaphore is
  not locked (its value is positive and nobody waits); the worker then starts its
  transport call. Otherwise the worker queues.
\<close>

definition start_worker :: "engine \<Rightarrow> worker \<Rightarrow> engine" where
  "start_worker s w =
     (if sem_value s > 0 \<and> waiters s = []
      then s\<lparr>sem_value := sem_value s - 1, in_flight := in_flight s @ [w],
             calls := calls s @ [w]\<rparr>
      else s\<lparr>waiters := waiters s @ [w]\<rparr>)"

text \<open>
  \<open>release\<close> runs on every exit of \<open>async with\<close>, also when \<open>_send_one\<close> raised.
  It adds one to the value and wakes the first waiter, which takes the slot and starts
  its transport call.
\<close>

definition release :: "engine \<Rightarrow> engine" where
  "release s =
     (case waiters s of
        [] \<Rightarrow> s\<lparr>sem_value := sem_value s + 1\<rparr>
      | w # ws \<Rightarrow> s\<lparr>waiters := ws, in_flight := in_flight s @ [w], calls := calls s @ [w]\<rparr>)"

text \<open>
  What \<open>await send_async(...)\<close> does: it returns, it raises an exception (given by its
  text), or it never resumes.
\<close>

datatype call_result = Returns | Raises string | Hangs

text \<open>
  One completion: the pending transport call at position \<open>i\<close> of \<open>in_flight\<close> ends.
  The rest of \<open>_send_one\<close> and of the worker runs: on success the progress hook is
  called when there is one; on an exception nothing more of the worker runs. The
  semaphore is released on both paths. The result is the result of the worker's task.
\<close>

definition complete :: "transport \<Rightarrow> bool \<Rightarrow> nat \<Rightarrow> engine \<Rightarrow> (string + unit) \<times> engine" where
  "complete transport hook i s =
     (let w = in_flight s ! i;
          s' = s\<lparr>in_flight := take i (in_flight s) @ drop (Suc i) (in_flight s)\<rparr>
      in case send_one transport w of
           (lg, Inr _) \<Rightarrow>
             (Inr (), release (s'\<lparr>logged := logged s' @ lg,
                                  progress := progress s' @ (if hook then [snd w] else [])\<rparr>))
         | (lg, Inl e) \<Rightarrow> (Inl e, release (s'\<lparr>logged := logged s' @ lg\<rparr>)))"

text \<open>
  \<open>asyncio.gather\<close> without \<open>return_exceptions\<close>: it returns when every task is done,
  and the first exception raised by a task is propagated at once to the caller; the other
  tasks are not cancelled by \<open>gather\<close>. Which pending transport call completes next is
  decided by the network: the schedule gives, for each completion, the position in
  \<open>in_flight\<close> of the call that completes (modulo the number of pending calls, 0 once
  the schedule is used up). With no call pending and workers still waiting for the
  semaphore, nothing can run any more.
\<close>

definition pick :: "nat list \<Rightarrow> engine \<Rightarrow> nat" where
  "pick sched s = (case sched of [] \<Rightarrow> 0 | k # _ \<Rightarrow> k mod length (in_flight s))"

function gather :: "transport \<Rightarrow> bool \<Rightarrow> nat list \<Rightarrow> engine \<Rightarrow> call_result \<times> engine" where
  "gather transport hook sched s =
     (if in_flight s = [] then (if waiters s = [] then Returns else Hangs, s)
      else case complete transport hook (pick sched s) s of
             (Inr _, s') \<Rightarrow> gather transport hook (tl sched) s'
           | (Inl e, s') \<Rightarrow> (Raises e, s'))"
  by pat_completeness auto
termination
proof (relation "measure (\<lambda>(transport, hook, sched, s). length (in_flight s) + length (waiters s))")
  show "wf (measure (\<lambda>(transport, hook, sched, s). length (in_flight s) + length (waiters s)))"
    by simp
next
  fix transport :: transport and hook :: bool and sched :: "nat list" and s s' :: engine
    and r :: "string + unit" and u :: unit
  assume ne: "in_flight s \<noteq> []"
    and c: "(r, s') = complete transport hook (pick sched s) s" and r: "r = Inr u"
  define rest where
    "rest = take (pick sched s) (in_flight s) @ drop (Suc (pick sched s)) (in_flight s)"
  from ne have "pick sched s < length (in_flight s)"
    by (cases sched) (simp_all add: pick_def)
  then have len: "length rest < length (in_flight s)" by (simp add: rest_def)
  obtain lg x where so: "send_one transport (in_flight s ! pick sched s) = (lg, x)"
    by (cases "send_one transport (in_flight s ! pick sched s)")
  from c r so have "s' = release
      (s\<lparr>in_flight := rest, logged := logged s @ lg,
         progress := progress s @
           (if hook then [snd (in_flight s ! pick sched s)] else [])\<rparr>)"
    by (cases x) (simp_all add: complete_def Let_def rest_def)
  with len show "((transport, hook, tl sched, s'), (transport, hook, sched, s))
      \<in> measure (\<lambda>(transport, hook, sched, s). length (in_flight s) + length (waiters s))"
    by (simp add: release_def split: list.split)
qed

declare gather.simps [simp del]

text \<open>
  \<open>send_async\<close>. The tasks are created in the order of \<open>recipients\<close> and each runs up to
  its first wait before \<open>gather\<close> is awaited.
\<close>

definition workers_of :: "string list \<Rightarrow> worker list" where
  "workers_of recipients = zip [0..<length recipients] recipients"

definition initial_engine :: "int \<Rightarrow> string list \<Rightarrow> engine" where
  "initial_engine limit recipients =
     \<lparr>sem_value = nat limit, waiters = [], in_flight = [], calls = [],
      logged = [INFO (''Starting broadcast to '' @ str_nat (length recipients) @
                     '' recipients (concurrency='' @ str_int limit @ '')'')],
      progress = []\<rparr>"

definition send_async ::
  "int \<Rightarrow> transport \<Rightarrow> nat list \<Rightarrow> string list \<Rightarrow> int option \<Rightarrow> bool \<Rightarrow> call_result \<times> engine" where
  "send_async DEFAULT_CONCURRENCY transport sched recipients conc progress_hook =
     (let limit = effective_limit DEFAULT_CONCURRENCY conc;
          s = foldl start_worker (initial_engine limit recipients) (workers_of recipients);
          (r, s) = gather transport progress_hook sched s
      in if r = Returns then (r, s\<lparr>logged := logged s @ [INFO ''Broadcast completed.'']\<rparr>)
         else (r, s))"

subsection \<open>What holds during a run\<close>

text \<open>
  \<open>is_delivery\<close> recognises the record that \<open>_send_one\<close> logs after a successful
  transport call. \<open>engine_inv\<close> relates a state of a run over the workers \<open>ws\<close> to the
  attempts that have succeeded (\<open>done\<close>, in completion order) and failed so far: the
  slots of the semaphore that are taken are those of the pending calls, a worker waits only
  when no slot is free, the calls were started in the order of the list, every started
  call is pending, has succeeded or has failed, and the progress calls and the delivery
  records are those of the attempts that succeeded.
\<close>

definition is_delivery :: "log_record \<Rightarrow> bool" where
  "is_delivery r = (case r of INFO m \<Rightarrow> starts_with ''Delivered to '' m | _ \<Rightarrow> False)"

definition engine_inv ::
  "transport \<Rightarrow> bool \<Rightarrow> nat \<Rightarrow> worker list \<Rightarrow> worker list \<Rightarrow> worker list \<Rightarrow> engine \<Rightarrow> bool" where
  "engine_inv transport hook limit ws done failed s \<longleftrightarrow>
     sem_value s + length (in_flight s) = limit \<and>
     (waiters s \<noteq> [] \<longrightarrow> sem_value s = 0) \<and>
     calls s @ waiters s = ws \<and>
     mset (calls s) = mset done + mset failed + mset (in_flight s) \<and>
     (\<forall>w \<in> set done. outcome_of transport w = Sent) \<and>
     progress s = (if hook then map snd done else []) \<and>
     filter is_delivery (logged s) = map (\<lambda>w. INFO (''Delivered to '' @ snd w)) done"

section \<open>Facts about the string operations\<close>

lemma starts_with_iff_prefix: "starts_with p s \<longleftrightarrow> prefix p s"
  by (induction p s rule: starts_with.induct) auto

lemma py_in_iff_sublist: "py_in needle s \<longleftrightarrow> sublist needle s"
  by (induction s) (auto simp: starts_with_iff_prefix sublist_Cons_right)

lemma py_in_char: "py_in [c] s \<longleftrightarrow> c \<in> set s"
  by (induction s) auto

lemma not_space_at: "\<not> py_isspace CHR ''@''"
  by (simp add: py_isspace_def)

lemma set_py_strip_subset: "set (py_strip s) \<subseteq> set s"
proof -
  have "set (py_strip s) = set (dropWhile py_isspace (rev (dropWhile py_isspace s)))"
    by (simp add: py_strip_def)
  also have "\<dots> \<subseteq> set (rev (dropWhile py_isspace s))"
    by (rule set_dropWhileD [THEN subsetI])
  also have "\<dots> \<subseteq> set s"
    using set_dropWhileD by fastforce
  finally show ?thesis .
qed

lemma mem_dropWhile: "x \<in> set xs \<Longrightarrow> \<not> P x \<Longrightarrow> x \<in> set (dropWhile P xs)"
  by (induction xs) auto

lemma mem_py_strip: "c \<in> set s \<Longrightarrow> \<not> py_isspace c \<Longrightarrow> c \<in> set (py_strip s)"
  by (simp add: py_strip_def mem_dropWhile)

lemma at_in_py_strip: "CHR ''@'' \<in> set (py_strip s) \<longleftrightarrow> CHR ''@'' \<in> set s"
  using set_py_strip_subset mem_py_strip not_space_at by blast

lemma py_strip_id: "s = [] \<or> (\<not> py_isspace (hd s) \<and> \<not> py_isspace (last s)) \<Longrightarrow> py_strip s = s"
proof (cases s)
  case Nil
  then show ?thesis by (simp add: py_strip_def)
next
  case (Cons a list)
  assume "s = [] \<or> (\<not> py_isspace (hd s) \<and> \<not> py_isspace (last s))"
  with Cons have h: "\<not> py_isspace a" and l: "\<not> py_isspace (last s)" by auto
  from Cons h have 1: "dropWhile py_isspace s = s" by simp
  from l have 2: "dropWhile py_isspace (rev s) = rev s"
    by (simp add: dropWhile_eq_self_iff hd_rev)
  show ?thesis by (simp add: py_strip_def 1 2)
qed

lemma validate_recipients_loop_eq:
  "validate_recipients_loop xs (valid, lg) =
     (valid @ map py_strip (filter (\<lambda>a. CHR ''@'' \<in> set a) xs),
      lg @ map (\<lambda>a. WARNING (''Skipped invalid address: '' @ a))
             (filter (\<lambda>a. CHR ''@'' \<notin> set a) xs))"
  by (induction xs arbitrary: valid lg) (simp_all add: py_in_char at_in_py_strip)

section \<open>Facts about \<open>validate_email\<close>\<close>

lemma str_nat_254: "str_nat MAX_EMAIL_LENGTH = ''254''"
  by code_simp

lemmas email_re_defs = EMAIL_RE_match_def EMAIL_RE_to_end_def local_char_def alnum_def
  dns_label_def label_char_def

lemma too_long:
  assumes "length email > 254"
  shows "validate_email self email = Inr (False, Some ''Email too long (max 254 chars)'')"
proof -
  from assms have "length email > MAX_EMAIL_LENGTH" by (simp only: MAX_EMAIL_LENGTH_def)
  then have "validate_email self email =
      Inr (False, Some (''Email too long (max '' @ str_nat MAX_EMAIL_LENGTH @ '' chars)''))"
    by (simp only: validate_email_def if_True)
  then show ?thesis by (simp only: str_nat_254) simp
qed

lemma rej1: "validate_email self ''not-an-email'' = Inr (False, Some ''Invalid email format'')"
  by (simp add: validate_email_def MAX_EMAIL_LENGTH_def email_re_defs)

lemma rej2: "validate_email self ''a@@b.com'' = Inr (False, Some ''Invalid email format'')"
  by (simp add: validate_email_def MAX_EMAIL_LENGTH_def email_re_defs)

lemma lower_c_com: "py_lower ''c.com'' = ''c.com''"
  by (simp add: py_lower_def lower_char_def upper_chars_def lower_chars_def)

lemma rej3: "validate_email self ''a..b@c.com'' = Inr (False, Some ''Consecutive dots not allowed'')"
  by (simp add: validate_email_def MAX_EMAIL_LENGTH_def email_re_defs index1_def lower_c_com
      DISPOSABLE_DOMAINS_def validate_email_rest_def)

lemma length_py_split: "length (py_split sep s) = Suc (count_list s sep)"
  by (induction s) (auto split: list.splits)

lemma py_split_chars: "c \<in> set s \<Longrightarrow> c \<noteq> sep \<Longrightarrow> \<exists>p \<in> set (py_split sep s). c \<in> set p"
  by (induction s) (auto split: list.splits)

lemma not_local_at: "\<not> local_char CHR ''@''"
  by (simp add: local_char_def alnum_def)

lemma not_label_at: "\<not> label_char CHR ''@''"
  by (simp add: label_char_def alnum_def)

lemma count_list_0: "x \<notin> set xs \<Longrightarrow> count_list xs x = 0"
  by (induction xs) auto

lemma domain_no_at:
  assumes "list_all dns_label (py_split CHR ''.'' domain)"
  shows "CHR ''@'' \<notin> set domain"
proof
  assume "CHR ''@'' \<in> set domain"
  then obtain p where p: "p \<in> set (py_split CHR ''.'' domain)" and c: "CHR ''@'' \<in> set p"
    using py_split_chars [of "CHR ''@''" domain "CHR ''.''"] by auto
  from assms p have "dns_label p" by (simp add: list_all_iff)
  then have "list_all label_char p" by (simp add: dns_label_def)
  with c have "label_char CHR ''@''" by (simp add: list_all_iff)
  then show False by (simp add: not_label_at)
qed

lemma to_end_one_at:
  assumes "EMAIL_RE_to_end s"
  shows "count_list s CHR ''@'' = 1"
proof -
  from assms obtain domain where d: "dropWhile local_char s = CHR ''@'' # domain"
    and l: "list_all dns_label (py_split CHR ''.'' domain)"
    by (auto simp: EMAIL_RE_to_end_def split: list.splits)
  have "CHR ''@'' \<notin> set (takeWhile local_char s)"
    using not_local_at set_takeWhileD by fastforce
  then have 1: "count_list (takeWhile local_char s) CHR ''@'' = 0" by (rule count_list_0)
  from l have 2: "count_list domain CHR ''@'' = 0" by (intro count_list_0 domain_no_at)
  have "s = takeWhile local_char s @ CHR ''@'' # domain"
    using d takeWhile_dropWhile_id [of local_char s] by simp
  then have "count_list s CHR ''@'' =
      count_list (takeWhile local_char s @ CHR ''@'' # domain) CHR ''@''" by simp
  also have "\<dots> = 1" using 1 2 by simp
  finally show ?thesis .
qed

lemma match_one_at:
  assumes "EMAIL_RE_match s"
  shows "count_list s CHR ''@'' = 1"
proof (cases "EMAIL_RE_to_end s")
  case True
  then show ?thesis by (rule to_end_one_at)
next
  case False
  with assms have ne: "s \<noteq> []" and nl: "last s = CHR 0x0A" and m: "EMAIL_RE_to_end (butlast s)"
    by (auto simp: EMAIL_RE_match_def)
  from ne nl have "s = butlast s @ [CHR 0x0A]" by (metis append_butlast_last_id)
  then have "count_list s CHR ''@'' = count_list (butlast s @ [CHR 0x0A]) CHR ''@''" by simp
  also have "\<dots> = 1" using to_end_one_at [OF m] by simp
  finally show ?thesis .
qed

lemma match_split2: "EMAIL_RE_match s \<Longrightarrow> length (py_split CHR ''@'' s) = 2"
  by (simp add: length_py_split match_one_at)

lemma length2: "length xs = 2 \<Longrightarrow> \<exists>a b. xs = [a, b]"
  by (cases xs; cases "tl xs") auto

lemma rest_total: "length (py_split CHR ''@'' email) = 2 \<Longrightarrow>
    \<exists>ok reason. validate_email_rest email = Inr (ok, reason)"
  by (auto simp: validate_email_rest_def unpack2_def dest!: length2)

lemma validate_email_returns: "\<exists>ok reason. validate_email self email = Inr (ok, reason)"
proof (cases "EMAIL_RE_match email")
  case False
  then show ?thesis by (auto simp: validate_email_def)
next
  case True
  then have 2: "length (py_split CHR ''@'' email) = 2" by (rule match_split2)
  then obtain a b where ab: "py_split CHR ''@'' email = [a, b]" using length2 by blast
  from 2 obtain ok reason where r: "validate_email_rest email = Inr (ok, reason)"
    using rest_total by blast
  show ?thesis by (auto simp: validate_email_def ab index1_def r Let_def)
qed


section \<open>The boundary validator\<close>

text \<open>
  C8. The per-address syntax check \<open>RecipientForm.validate_email\<close> rejects
  \<open>"not-an-email"\<close>, \<open>"a@@b.com"\<close>, \<open>"a..b@c.com"\<close> and every address longer than 254
  characters, each with a non-empty reason, whatever the form's flags are.
\<close>

theorem validate_email_rejects:
  "validate_email self ''not-an-email'' = Inr (False, Some ''Invalid email format'') \<and>
   validate_email self ''a@@b.com'' = Inr (False, Some ''Invalid email format'') \<and>
   validate_email self ''a..b@c.com'' = Inr (False, Some ''Consecutive dots not allowed'') \<and>
   (254 < length email \<longrightarrow>
      validate_email self email = Inr (False, Some ''Email too long (max 254 chars)''))"
  using rej1 rej2 rej3 too_long by blast

theorem validate_email_rejects_witness:
  "validate_email (RecipientForm_init Map.empty) ''not-an-email'' =
     Inr (False, Some ''Invalid email format'') \<and>
   validate_email (RecipientForm_init Map.empty) ''a@@b.com'' =
     Inr (False, Some ''Invalid email format'') \<and>
   validate_email (RecipientForm_init Map.empty) ''a..b@c.com'' =
     Inr (False, Some ''Consecutive dots not allowed'') \<and>
   length (replicate 255 CHR ''a'') = 255 \<and>
   validate_email (RecipientForm_init Map.empty) (replicate 255 CHR ''a'') =
     Inr (False, Some ''Email too long (max 254 chars)'')"
  using validate_email_rejects [of "RecipientForm_init Map.empty" "replicate 255 CHR ''a''"]
  by simp

text \<open>
  C9. \<open>RecipientForm.validate_email\<close> is total: on every string it returns a pair of
  a flag and an optional reason and raises neither \<open>IndexError\<close> nor \<open>ValueError\<close>.
  Whenever \<open>EMAIL_RE\<close> matches, the string holds exactly one \<open>@\<close>, so
  \<open>email.split('@')\<close> has exactly two elements: the indexing \<open>[1]\<close> and the
  two-element unpacking both succeed.
\<close>

theorem validate_email_total:
  "(\<exists>ok reason. validate_email self email = Inr (ok, reason)) \<and>
   (EMAIL_RE_match email \<longrightarrow>
      count_list email CHR ''@'' = 1 \<and>
      (\<exists>local domain. py_split CHR ''@'' email = [local, domain] \<and>
         index1 (py_split CHR ''@'' email) = Inr domain \<and>
         unpack2 (py_split CHR ''@'' email) = Inr (local, domain)))"
proof (intro conjI impI)
  show "\<exists>ok reason. validate_email self email = Inr (ok, reason)"
    by (rule validate_email_returns)
next
  assume m: "EMAIL_RE_match email"
  then show "count_list email CHR ''@'' = 1" by (rule match_one_at)
  from m obtain a b where ab: "py_split CHR ''@'' email = [a, b]"
    using match_split2 length2 by blast
  then show "\<exists>local domain. py_split CHR ''@'' email = [local, domain] \<and>
         index1 (py_split CHR ''@'' email) = Inr domain \<and>
         unpack2 (py_split CHR ''@'' email) = Inr (local, domain)"
    by (simp add: index1_def unpack2_def)
qed

theorem validate_email_total_witness:
  "EMAIL_RE_match ''a@b.com'' \<and>
   validate_email (RecipientForm_init Map.empty) ''a@b.com'' = Inr (True, None) \<and>
   count_list ''a@b.com'' CHR ''@'' = 1 \<and>
   py_split CHR ''@'' ''a@b.com'' = [''a'', ''b.com''] \<and>
   index1 (py_split CHR ''@'' ''a@b.com'') = Inr ''b.com'' \<and>
   unpack2 (py_split CHR ''@'' ''a@b.com'') = Inr (''a'', ''b.com'')"
proof -
  have m: "EMAIL_RE_match ''a@b.com''"
    by (simp add: email_re_defs)
  have s: "py_split CHR ''@'' ''a@b.com'' = [''a'', ''b.com'']"
    by simp
  have l: "py_lower ''b.com'' = ''b.com''"
    by (simp add: py_lower_def lower_char_def upper_chars_def lower_chars_def)
  have v: "validate_email (RecipientForm_init Map.empty) ''a@b.com'' = Inr (True, None)"
    by (simp add: validate_email_def MAX_EMAIL_LENGTH_def m s l index1_def unpack2_def
        DISPOSABLE_DOMAINS_def validate_email_rest_def)
  from validate_email_total [of "RecipientForm_init Map.empty" "''a@b.com''"] m
  have "count_list ''a@b.com'' CHR ''@'' = 1" by blast
  with m s v show ?thesis by (simp add: index1_def unpack2_def)
qed

section \<open>The engine-side filter against the boundary validator\<close>

text \<open>
  C10. \<open>validate_recipients\<close> returns exactly the trimmed forms of the input addresses
  that contain \<open>@\<close>, in input order, and logs one warning for each other input; it
  applies no other rule. \<open>"a@@b"\<close> and an address of 255 characters, both rejected by
  \<open>RecipientForm.validate_email\<close>, pass it unchanged.
\<close>

theorem validate_recipients_filter:
  "validate_recipients addrs =
     (map py_strip (filter (\<lambda>a. CHR ''@'' \<in> set a) addrs),
      map (\<lambda>a. WARNING (''Skipped invalid address: '' @ a))
        (filter (\<lambda>a. CHR ''@'' \<notin> set a) addrs)) \<and>
   validate_recipients [''a@@b'', replicate 249 CHR ''a'' @ ''@b.com''] =
     ([''a@@b'', replicate 249 CHR ''a'' @ ''@b.com''], []) \<and>
   validate_email self ''a@@b'' = Inr (False, Some ''Invalid email format'') \<and>
   length (replicate 249 CHR ''a'' @ ''@b.com'') = 255 \<and>
   validate_email self (replicate 249 CHR ''a'' @ ''@b.com'') =
     Inr (False, Some ''Email too long (max 254 chars)'')"
proof (intro conjI)
  show "validate_recipients addrs =
     (map py_strip (filter (\<lambda>a. CHR ''@'' \<in> set a) addrs),
      map (\<lambda>a. WARNING (''Skipped invalid address: '' @ a))
        (filter (\<lambda>a. CHR ''@'' \<notin> set a) addrs))"
    by (simp add: validate_recipients_def validate_recipients_loop_eq)
  have 1: "py_strip ''a@@b'' = ''a@@b''"
    by (rule py_strip_id) (simp add: py_isspace_def)
  have 2: "py_strip (replicate 249 CHR ''a'' @ ''@b.com'') = replicate 249 CHR ''a'' @ ''@b.com''"
    by (rule py_strip_id) (simp add: py_isspace_def hd_append)
  show "validate_recipients [''a@@b'', replicate 249 CHR ''a'' @ ''@b.com''] =
     ([''a@@b'', replicate 249 CHR ''a'' @ ''@b.com''], [])"
    by (simp add: validate_recipients_def validate_recipients_loop_eq 1 2)
  show "validate_email self ''a@@b'' = Inr (False, Some ''Invalid email format'')"
    by (simp add: validate_email_def MAX_EMAIL_LENGTH_def email_re_defs)
  show "length (replicate 249 CHR ''a'' @ ''@b.com'') = 255" by simp
  then show "validate_email self (replicate 249 CHR ''a'' @ ''@b.com'') =
     Inr (False, Some ''Email too long (max 254 chars)'')"
    by (intro too_long) simp
qed

theorem validate_recipients_filter_witness:
  "validate_recipients ['' a@b.com '', ''nobody'', ''a@@b''] =
     ([''a@b.com'', ''a@@b''], [WARNING ''Skipped invalid address: nobody''])"
  using validate_recipients_filter [of "['' a@b.com '', ''nobody'', ''a@@b'']"]
  by (simp add: py_strip_def py_isspace_def)

section \<open>The concurrency field of the broadcast form\<close>

lemma last_dropWhile_ne: "dropWhile P xs \<noteq> [] \<Longrightarrow> last (dropWhile P xs) = last xs"
  by (induction xs) (auto split: if_splits)




lemma concurrency_add_warning [simp]: "concurrency (add_warning f m self) = concurrency self"
  by (simp add: add_warning_def)
lemma concurrency_add_error [simp]: "concurrency (add_error f m self) = concurrency self"
  by (simp add: add_error_def)
lemma raw_add_warning [simp]: "concurrency_raw (add_warning f m self) = concurrency_raw self"
  by (simp add: add_warning_def)
lemma raw_add_error [simp]: "concurrency_raw (add_error f m self) = concurrency_raw self"
  by (simp add: add_error_def)

lemma raw_validate_subject [simp]: "concurrency_raw (validate_subject self) = concurrency_raw self"
  by (simp add: validate_subject_def)
lemma raw_check_spam [simp]: "concurrency_raw (check_spam self) = concurrency_raw self"
  by (simp add: check_spam_def Let_def)
lemma raw_validate_body [simp]: "concurrency_raw (validate_body self) = concurrency_raw self"
  by (simp add: validate_body_def)
lemma raw_check_unsubscribe [simp]: "concurrency_raw (check_unsubscribe self) = concurrency_raw self"
  by (simp add: check_unsubscribe_def)
lemma concurrency_validate_test_email [simp]:
  "concurrency (validate_test_email self) = concurrency self"
  by (simp add: validate_test_email_def)










section \<open>Normalisation of the recipient list\<close>

lemma remdups_drop_dup: "y \<in> set zs \<Longrightarrow> remdups (xs @ y # zs) = remdups (xs @ zs)"
  by (induction xs) auto

lemma first_occurrences_skip:
  "t \<in> set addrs \<Longrightarrow>
     rev (remdups (rev (addrs @ t # rest))) = rev (remdups (rev (addrs @ rest)))"
  using remdups_drop_dup [of t "rev addrs" "rev rest"] by simp



lemma flatten_loop_plain:
  "fst (flatten_loop False tokens (addrs, seen)) =
     addrs @ filter (\<lambda>t. t \<noteq> []) (map (\<lambda>t. py_lower (py_strip t)) tokens)"
  by (induction tokens arbitrary: addrs) (simp_all add: Let_def)



lemma lower_A: "py_lower (py_strip ''A@X.com'') = ''a@x.com''"
  by code_simp

lemma re_split_unfold:
  "re_split s =
     (if dropWhile (\<lambda>c. \<not> is_sep c) s = [] then [takeWhile (\<lambda>c. \<not> is_sep c) s]
      else takeWhile (\<lambda>c. \<not> is_sep c) s #
           re_split (dropWhile is_sep (dropWhile (\<lambda>c. \<not> is_sep c) s)))"
  by (subst re_split.simps) (simp add: Let_def)

lemma re_split_after_sep:
  "pre \<noteq> [] \<Longrightarrow> is_sep (last pre) \<Longrightarrow> s \<noteq> [] \<Longrightarrow> \<not> is_sep (hd s) \<Longrightarrow>
     \<exists>ts. re_split (pre @ s) = ts @ re_split s"
proof (induction pre rule: re_split.induct)
  case (1 pre)
  let ?piece = "takeWhile (\<lambda>c. \<not> is_sep c) pre"
  let ?rest = "dropWhile (\<lambda>c. \<not> is_sep c) pre"
  from "1.prems" have mem: "last pre \<in> set pre" "\<not> \<not> is_sep (last pre)" by simp_all
  then have rne: "?rest \<noteq> []" by (metis dropWhile_eq_Nil_conv)
  from mem have tw: "takeWhile (\<lambda>c. \<not> is_sep c) (pre @ s) = ?piece"
    by (rule takeWhile_append1)
  from mem have dw: "dropWhile (\<lambda>c. \<not> is_sep c) (pre @ s) = ?rest @ s"
    by (rule dropWhile_append1)
  from rne have rsne: "?rest @ s \<noteq> []" by simp
  have u: "re_split (pre @ s) = ?piece # re_split (dropWhile is_sep (?rest @ s))"
    using re_split_unfold [of "pre @ s"] by (simp only: tw dw rsne if_False)
  from "1.prems" have ds: "dropWhile is_sep s = s" by (cases s) auto
  show ?case
  proof (cases "dropWhile is_sep ?rest = []")
    case True
    then have "\<forall>c \<in> set ?rest. is_sep c" by (simp only: dropWhile_eq_Nil_conv)
    then have "dropWhile is_sep (?rest @ s) = dropWhile is_sep s"
      using dropWhile_append2 [of ?rest is_sep s] by blast
    with u ds have "re_split (pre @ s) = [?piece] @ re_split s"
      by (simp only: append_Cons append_Nil)
    then show ?thesis by blast
  next
    case False
    let ?pre' = "dropWhile is_sep ?rest"
    from False obtain x where x: "x \<in> set ?rest" "\<not> is_sep x"
      by (simp only: dropWhile_eq_Nil_conv) blast
    then have d: "dropWhile is_sep (?rest @ s) = ?pre' @ s" by (rule dropWhile_append1)
    have "last ?pre' = last ?rest" using False by (rule last_dropWhile_ne)
    also have "\<dots> = last pre" using rne by (rule last_dropWhile_ne)
    finally have l: "is_sep (last ?pre')" using "1.prems" by simp
    from "1.IH" [OF refl refl rne False l "1.prems"(3,4)]
    obtain ts where "re_split (?pre' @ s) = ts @ re_split s" by blast
    with u d have "re_split (pre @ s) = (?piece # ts) @ re_split s"
      by (simp only: append_Cons)
    then show ?thesis by blast
  qed
qed

lemma re_split_head_token:
  assumes "\<forall>c \<in> set tok. \<not> is_sep c" and "post = [] \<or> is_sep (hd post)"
  shows "hd (re_split (tok @ post)) = tok"
proof -
  have "takeWhile (\<lambda>c. \<not> is_sep c) (tok @ post) = tok"
  proof (cases post)
    case Nil
    with assms show ?thesis by simp
  next
    case (Cons c cs)
    with assms have "is_sep c" by simp
    with assms Cons show ?thesis by (simp add: takeWhile_append2)
  qed
  then show ?thesis by (subst re_split_unfold) simp
qed

lemma re_split_ne: "re_split s \<noteq> []"
  by (subst re_split_unfold) simp

lemma token_in_text:
  assumes "tok \<noteq> []" and "\<forall>c \<in> set tok. \<not> is_sep c"
    and "pre = [] \<or> is_sep (last pre)" and "post = [] \<or> is_sep (hd post)"
  shows "tok \<in> set (re_split (pre @ tok @ post))"
proof -
  from assms(2,4) have "hd (re_split (tok @ post)) = tok" by (rule re_split_head_token)
  then have t: "tok \<in> set (re_split (tok @ post))"
    using re_split_ne [of "tok @ post"] by (metis hd_in_set)
  show ?thesis
  proof (cases "pre = []")
    case True
    with t show ?thesis by simp
  next
    case False
    with assms(3) have l: "is_sep (last pre)" by simp
    from assms(1,2) have "tok @ post \<noteq> []" "\<not> is_sep (hd (tok @ post))"
      by (cases tok; simp)+
    from re_split_after_sep [OF False l this]
    obtain ts where "re_split (pre @ tok @ post) = ts @ re_split (tok @ post)" by blast
    with t show ?thesis by simp
  qed
qed



section \<open>Runs of the dispatch engine\<close>

lemma start_phase:
  fixes L :: nat and rs :: "string list"
  defines "s0 \<equiv> initial_engine (int L) rs"
  shows "sem_value (foldl start_worker s0 xs) + length (in_flight (foldl start_worker s0 xs)) = L \<and>
     (waiters (foldl start_worker s0 xs) \<noteq> [] \<longrightarrow> sem_value (foldl start_worker s0 xs) = 0) \<and>
     calls (foldl start_worker s0 xs) @ waiters (foldl start_worker s0 xs) = xs \<and>
     calls (foldl start_worker s0 xs) = in_flight (foldl start_worker s0 xs) \<and>
     progress (foldl start_worker s0 xs) = [] \<and>
     logged (foldl start_worker s0 xs) = logged s0"
proof (induction xs rule: rev_induct)
  case Nil
  show ?case by (simp add: s0_def initial_engine_def)
next
  case (snoc x xs)
  then show ?case by (auto simp: start_worker_def)
qed

lemma start_inv:
  "engine_inv transport hook L ws [] []
     (foldl start_worker (initial_engine (int L) rs) ws)"
proof -
  have lg: "filter is_delivery (logged (initial_engine (int L) rs)) = []"
    by (simp add: initial_engine_def is_delivery_def)
  show ?thesis using start_phase [of L rs ws] lg by (auto simp: engine_inv_def)
qed

lemma mset_remove_nth:
  "i < length xs \<Longrightarrow> mset xs = mset (take i xs @ drop (Suc i) xs) + {#xs ! i#}"
  by (metis add_mset_add_single append_take_drop_id Cons_nth_drop_Suc mset.simps(2) mset_append union_mset_add_mset_right)

lemma release_inv:
  assumes "sem_value s + length (in_flight s) + 1 = L"
    and "waiters s \<noteq> [] \<longrightarrow> sem_value s = 0"
    and "calls s @ waiters s = ws"
    and "mset (calls s) = mset done + mset failed + mset (in_flight s)"
    and "\<forall>w \<in> set done. outcome_of transport w = Sent"
    and "progress s = (if hook then map snd done else [])"
    and "filter is_delivery (logged s) = map (\<lambda>w. INFO (''Delivered to '' @ snd w)) done"
  shows "engine_inv transport hook L ws done failed (release s)"
proof (cases "waiters s")
  case Nil
  with assms show ?thesis by (simp add: engine_inv_def release_def)
next
  case (Cons v vs)
  with assms show ?thesis by (auto simp: engine_inv_def release_def)
qed

lemma complete_sent:
  assumes inv: "engine_inv transport hook L ws done [] s"
    and i: "i < length (in_flight s)"
    and sent: "outcome_of transport (in_flight s ! i) = Sent"
  shows "\<exists>s'. complete transport hook i s = (Inr (), s') \<and>
       engine_inv transport hook L ws (done @ [in_flight s ! i]) [] s' \<and>
       length (in_flight s') + length (waiters s') < length (in_flight s) + length (waiters s)"
proof -
  let ?w = "in_flight s ! i"
  let ?rest = "take i (in_flight s) @ drop (Suc i) (in_flight s)"
  let ?s1 = "s\<lparr>in_flight := ?rest, logged := logged s @ [INFO (''Delivered to '' @ snd ?w)],
               progress := progress s @ (if hook then [snd ?w] else [])\<rparr>"
  have c: "complete transport hook i s = (Inr (), release ?s1)"
    by (simp add: complete_def send_one_def sent Let_def)
  from i have len: "length ?rest + 1 = length (in_flight s)" by simp
  from i have m: "mset (in_flight s) = mset ?rest + {#?w#}" by (rule mset_remove_nth)
  have "engine_inv transport hook L ws (done @ [?w]) [] (release ?s1)"
  proof (rule release_inv)
    show "sem_value ?s1 + length (in_flight ?s1) + 1 = L"
      using inv len by (simp add: engine_inv_def)
    show "waiters ?s1 \<noteq> [] \<longrightarrow> sem_value ?s1 = 0" using inv by (simp add: engine_inv_def)
    show "calls ?s1 @ waiters ?s1 = ws" using inv by (simp add: engine_inv_def)
    show "mset (calls ?s1) = mset (done @ [?w]) + mset [] + mset (in_flight ?s1)"
      using inv m by (simp add: engine_inv_def)
    show "\<forall>w \<in> set (done @ [?w]). outcome_of transport w = Sent"
      using inv sent by (simp add: engine_inv_def)
    show "progress ?s1 = (if hook then map snd (done @ [?w]) else [])"
      using inv by (simp add: engine_inv_def)
    show "filter is_delivery (logged ?s1) =
        map (\<lambda>w. INFO (''Delivered to '' @ snd w)) (done @ [?w])"
      using inv by (simp add: engine_inv_def is_delivery_def)
  qed
  moreover have "length (in_flight (release ?s1)) + length (waiters (release ?s1))
      < length (in_flight s) + length (waiters s)"
  proof -
    define rest where "rest = ?rest"
    from len have "length rest < length (in_flight s)" by (simp add: rest_def)
    then have "length (in_flight (release (s\<lparr>in_flight := rest,
          logged := logged s @ [INFO (''Delivered to '' @ snd ?w)],
          progress := progress s @ (if hook then [snd ?w] else [])\<rparr>))) +
        length (waiters (release (s\<lparr>in_flight := rest,
          logged := logged s @ [INFO (''Delivered to '' @ snd ?w)],
          progress := progress s @ (if hook then [snd ?w] else [])\<rparr>)))
      < length (in_flight s) + length (waiters s)"
      by (simp add: release_def split: list.split)
    then show ?thesis by (simp only: rest_def)
  qed
  ultimately show ?thesis using c by blast
qed

lemma complete_failed:
  assumes inv: "engine_inv transport hook L ws done [] s"
    and i: "i < length (in_flight s)"
    and failed: "outcome_of transport (in_flight s ! i) = Failed e"
  shows "\<exists>s'. complete transport hook i s = (Inl e, s') \<and>
       engine_inv transport hook L ws done [in_flight s ! i] s'"
proof -
  let ?w = "in_flight s ! i"
  let ?rest = "take i (in_flight s) @ drop (Suc i) (in_flight s)"
  let ?s1 = "s\<lparr>in_flight := ?rest,
               logged := logged s @ (if auth_failure e then [ERROR AUTH_GUIDANCE] else [])\<rparr>"
  have c: "complete transport hook i s = (Inl e, release ?s1)"
    by (simp add: complete_def send_one_def failed Let_def)
  from i have len: "length ?rest + 1 = length (in_flight s)" by simp
  from i have m: "mset (in_flight s) = mset ?rest + {#?w#}" by (rule mset_remove_nth)
  have "engine_inv transport hook L ws done [?w] (release ?s1)"
  proof (rule release_inv)
    show "sem_value ?s1 + length (in_flight ?s1) + 1 = L"
      using inv len by (simp add: engine_inv_def)
    show "waiters ?s1 \<noteq> [] \<longrightarrow> sem_value ?s1 = 0" using inv by (simp add: engine_inv_def)
    show "calls ?s1 @ waiters ?s1 = ws" using inv by (simp add: engine_inv_def)
    show "mset (calls ?s1) = mset done + mset [?w] + mset (in_flight ?s1)"
      using inv m by (simp add: engine_inv_def)
    show "\<forall>w \<in> set done. outcome_of transport w = Sent"
      using inv by (simp add: engine_inv_def)
    show "progress ?s1 = (if hook then map snd done else [])"
      using inv by (simp add: engine_inv_def)
    show "filter is_delivery (logged ?s1) = map (\<lambda>w. INFO (''Delivered to '' @ snd w)) done"
      using inv by (simp add: engine_inv_def is_delivery_def)
  qed
  with c show ?thesis by blast
qed

lemma pick_less: "in_flight s \<noteq> [] \<Longrightarrow> pick sched s < length (in_flight s)"
  by (cases sched) (simp_all add: pick_def)

lemma gather_inv:
  assumes "engine_inv transport hook L ws done [] s" and "0 < L"
  shows "\<exists>r s' done' failed'. gather transport hook sched s = (r, s') \<and>
      engine_inv transport hook L ws done' failed' s' \<and>
      (r = Returns \<and> failed' = [] \<and> in_flight s' = [] \<and> waiters s' = [] \<or>
       (\<exists>e w. r = Raises e \<and> failed' = [w] \<and> outcome_of transport w = Failed e))"
  using assms
proof (induction "length (in_flight s) + length (waiters s)" arbitrary: s sched "done"
    rule: less_induct)
  case less
  show ?case
  proof (cases "in_flight s = []")
    case True
    with less.prems have "waiters s = []" by (auto simp: engine_inv_def)
    with True have "gather transport hook sched s = (Returns, s)"
      by (simp add: gather.simps)
    with True \<open>waiters s = []\<close> less.prems(1) show ?thesis by blast
  next
    case False
    then have i: "pick sched s < length (in_flight s)" by (rule pick_less)
    let ?w = "in_flight s ! pick sched s"
    show ?thesis
    proof (cases "outcome_of transport ?w")
      case Sent
      from complete_sent [OF less.prems(1) i Sent]
      obtain s1 where c: "complete transport hook (pick sched s) s = (Inr (), s1)"
        and inv1: "engine_inv transport hook L ws (done @ [?w]) [] s1"
        and m: "length (in_flight s1) + length (waiters s1)
              < length (in_flight s) + length (waiters s)"
        by blast
      from False c have g: "gather transport hook sched s = gather transport hook (tl sched) s1"
        by (subst gather.simps) simp
      from less.hyps [OF m inv1 less.prems(2), of "tl sched"] g show ?thesis by simp
    next
      case (Failed e)
      from complete_failed [OF less.prems(1) i Failed]
      obtain s1 where c: "complete transport hook (pick sched s) s = (Inl e, s1)"
        and inv1: "engine_inv transport hook L ws done [?w] s1"
        by blast
      from False c have "gather transport hook sched s = (Raises e, s1)"
        by (subst gather.simps) simp
      with inv1 Failed show ?thesis by blast
    qed
  qed
qed

end
